theory Spec2Isabelle
  imports Complex_Main "HOL-Library.Multiset" "HOL-Library.Product_Lexorder"
begin

section \<open>Forest worker: data points and label counting\<close>

text \<open>
  The forest worker is plain JavaScript. Numbers are IEEE doubles there; the embedding
  idealises them as \<^typ>\<open>real\<close>, so every statement below is about the exact
  arithmetic of the algorithm (the specification's "up to floating tolerance").
  A \<open>DataPoint\<close> is \<^verbatim>\<open>{ features: number[], label: number }\<close>.
\<close>

record DataPoint =
  features :: "real list"
  label :: int

text \<open>
  \<^verbatim>\<open>counts[label] = (counts[label] || 0) + 1\<close> on an object used as a dictionary.
  The object is an association list with one entry per key; a new key is appended.
  (JavaScript enumerates integer-like keys in ascending order and the others in insertion
  order; the counts are only ever summed or looked up, which does not depend on the order.)
\<close>

fun bump :: "(int \<times> nat) list \<Rightarrow> int \<Rightarrow> (int \<times> nat) list" where
  "bump [] k = [(k, 1)]"
| "bump ((k', c) # cs) k = (if k' = k then (k', c + 1) # cs else (k', c) # bump cs k)"

definition countLabels :: "int list \<Rightarrow> (int \<times> nat) list" where
  "countLabels labels = foldl bump [] labels"

text \<open>
  \<^verbatim>\<open>
  function giniImpurity(labels) {
    const counts = {};
    labels.forEach((label) => { counts[label] = (counts[label] || 0) + 1; });
    const total = labels.length;
    return 1 - Object.values(counts).reduce(
      (sum, count) => sum + Math.pow(count / total, 2), 0);
  }
  \<close>
\<close>

definition giniImpurity :: "int list \<Rightarrow> real" where
  "giniImpurity labels =
     (let counts = countLabels labels;
          total = length labels
      in 1 - foldl (\<lambda>sum count. sum + (real count / real total)\<^sup>2) 0 (map snd counts))"


section \<open>Forest worker: best-split search\<close>

text \<open>
  \<^verbatim>\<open>[...new Set(values)]\<close>: the distinct elements in the order of their first occurrence.
  The first argument is the list of values seen so far.
\<close>

primrec insertionOrder :: "'a list \<Rightarrow> 'a list \<Rightarrow> 'a list" where
  "insertionOrder seen [] = []"
| "insertionOrder seen (x # xs) =
     (if x \<in> set seen then insertionOrder seen xs else x # insertionOrder (x # seen) xs)"

definition spreadSet :: "'a list \<Rightarrow> 'a list" where
  "spreadSet xs = insertionOrder [] xs"

text \<open>The object \<^verbatim>\<open>{ featureIndex, threshold, left, right }\<close> that the search returns.\<close>

record Split =
  featureIndex :: nat
  threshold :: real
  left :: "DataPoint list"
  right :: "DataPoint list"

text \<open>\<^verbatim>\<open>bestGini\<close> starts at \<^verbatim>\<open>Infinity\<close>; \<open>below g b\<close> is \<^verbatim>\<open>g < b\<close>.\<close>

datatype bound = Infinity | Finite real

fun below :: "real \<Rightarrow> bound \<Rightarrow> bool" where
  "below g Infinity = True"
| "below g (Finite b) = (g < b)"

text \<open>
  \<^verbatim>\<open>
  function findBestSplit({ data, featureIndices }) {
    let bestGini = Infinity;
    let bestSplit = null;
    for (const featureIndex of featureIndices) {
      const values = data.map((d) => d.features[featureIndex]).sort((a, b) => a - b);
      const uniqueValues = [...new Set(values)];
      for (let i = 0; i < uniqueValues.length - 1; i++) {
        const threshold = (uniqueValues[i] + uniqueValues[i + 1]) / 2;
        const left = data.filter((d) => d.features[featureIndex] <= threshold);
        const right = data.filter((d) => d.features[featureIndex] > threshold);
        const gini =
          (left.length / data.length) * giniImpurity(left.map((d) => d.label)) +
          (right.length / data.length) * giniImpurity(right.map((d) => d.label));
        if (gini < bestGini) {
          bestGini = gini;
          bestSplit = { featureIndex, threshold, left, right };
        }
      }
    }
    return bestSplit;
  }
  \<close>
  The two loops are folds over the pair \<open>(bestGini, bestSplit)\<close>. A feature index is read
  with \<open>!\<close>; the theorems about the search assume that every candidate index lies inside
  every feature vector (all embeddings of a run have one length), where \<open>!\<close> is the
  JavaScript read.
\<close>

definition splitAt :: "DataPoint list \<Rightarrow> nat \<Rightarrow> real \<Rightarrow> Split" where
  "splitAt data fi t =
     \<lparr>featureIndex = fi, threshold = t,
      left = filter (\<lambda>d. features d ! fi \<le> t) data,
      right = filter (\<lambda>d. features d ! fi > t) data\<rparr>"

definition weightedGini :: "DataPoint list \<Rightarrow> Split \<Rightarrow> real" where
  "weightedGini data s =
     (real (length (left s)) / real (length data)) * giniImpurity (map label (left s)) +
     (real (length (right s)) / real (length data)) * giniImpurity (map label (right s))"

definition keepBetter :: "DataPoint list \<Rightarrow> Split \<Rightarrow> bound \<times> Split option \<Rightarrow> bound \<times> Split option" where
  "keepBetter data s best =
     (let gini = weightedGini data s
      in if below gini (fst best) then (Finite gini, Some s) else best)"

definition considerThreshold ::
  "DataPoint list \<Rightarrow> nat \<Rightarrow> real list \<Rightarrow> nat \<Rightarrow> bound \<times> Split option \<Rightarrow> bound \<times> Split option" where
  "considerThreshold data fi uniqueValues i best =
     (let threshold = (uniqueValues ! i + uniqueValues ! (i + 1)) / 2
      in keepBetter data (splitAt data fi threshold) best)"

definition uniqueValuesOf :: "DataPoint list \<Rightarrow> nat \<Rightarrow> real list" where
  "uniqueValuesOf data fi = spreadSet (sort (map (\<lambda>d. features d ! fi) data))"

definition considerFeature ::
  "DataPoint list \<Rightarrow> nat \<Rightarrow> bound \<times> Split option \<Rightarrow> bound \<times> Split option" where
  "considerFeature data fi best =
     (let uniqueValues = uniqueValuesOf data fi
      in fold (considerThreshold data fi uniqueValues) [0..<length uniqueValues - 1] best)"

definition findBestSplit :: "DataPoint list \<Rightarrow> nat list \<Rightarrow> Split option" where
  "findBestSplit data featureIndices =
     snd (fold (considerFeature data) featureIndices (Infinity, None))"

text \<open>
  The specification's wording of the candidates: two observed values of a feature are
  adjacent when no observed value lies strictly between them.
\<close>

definition observedValues :: "DataPoint list \<Rightarrow> nat \<Rightarrow> real set" where
  "observedValues data fi = (\<lambda>d. features d ! fi) ` set data"

definition adjacentValues :: "DataPoint list \<Rightarrow> nat \<Rightarrow> real \<Rightarrow> real \<Rightarrow> bool" where
  "adjacentValues data fi a b =
     (a \<in> observedValues data fi \<and> b \<in> observedValues data fi \<and> a < b \<and>
      (\<forall>v\<in>observedValues data fi. v \<le> a \<or> b \<le> v))"


section \<open>Properties of label counting\<close>

lemma foldl_plus_sum_list:
  "foldl (\<lambda>s c. s + f c) (a::real) cs = a + sum_list (map f cs)"
  by (induction cs arbitrary: a) simp_all

lemma bump_keys: "map fst (bump cs k) = (if k \<in> fst ` set cs then map fst cs else map fst cs @ [k])"
  by (induction cs k rule: bump.induct) auto

lemma bump_distinct: "distinct (map fst cs) \<Longrightarrow> distinct (map fst (bump cs k))"
  by (simp add: bump_keys)

lemma bump_lookup:
  "map_of (bump cs k) k' =
     (if k' = k then Some (case map_of cs k of None \<Rightarrow> 1 | Some c \<Rightarrow> c + 1) else map_of cs k')"
  by (induction cs k rule: bump.induct) auto

lemma foldl_bump_distinct:
  "distinct (map fst cs) \<Longrightarrow> distinct (map fst (foldl bump cs ls))"
  by (induction ls arbitrary: cs) (simp_all add: bump_distinct)

lemma bump_key_set: "fst ` set (bump cs k) = insert k (fst ` set cs)"
  by (induction cs k rule: bump.induct) auto

lemma foldl_bump_keys: "fst ` set (foldl bump cs ls) = fst ` set cs \<union> set ls"
  by (induction ls arbitrary: cs) (simp_all add: bump_key_set)

lemma foldl_bump_lookup:
  "map_of (foldl bump cs ls) k =
     (if k \<in> set ls
      then Some ((case map_of cs k of None \<Rightarrow> 0 | Some c \<Rightarrow> c) + count_list ls k)
      else map_of cs k)"
proof (induction ls arbitrary: cs)
  case Nil
  show ?case by simp
next
  case (Cons l ls)
  show ?case
    by (simp add: Cons.IH bump_lookup split: option.splits)
qed

lemma countLabels_distinct: "distinct (map fst (countLabels ls))"
  by (simp add: countLabels_def foldl_bump_distinct)

lemma countLabels_keys: "fst ` set (countLabels ls) = set ls"
  by (simp add: countLabels_def foldl_bump_keys)

lemma countLabels_lookup:
  "map_of (countLabels ls) k = (if k \<in> set ls then Some (count_list ls k) else None)"
  by (simp add: countLabels_def foldl_bump_lookup)

lemma countLabels_entry:
  assumes "(k, c) \<in> set (countLabels ls)"
  shows "c = count_list ls k"
proof -
  from assms have "map_of (countLabels ls) k = Some c"
    by (simp add: countLabels_distinct)
  then show ?thesis
    by (simp add: countLabels_lookup split: if_splits)
qed

lemma countLabels_sum:
  "sum_list (map (\<lambda>kc. f (snd kc)) (countLabels ls)) = (\<Sum>k\<in>set ls. f (count_list ls k) :: real)"
proof -
  have "sum_list (map (\<lambda>kc. f (snd kc)) (countLabels ls))
        = sum_list (map (\<lambda>kc. f (count_list ls (fst kc))) (countLabels ls))"
    by (rule arg_cong [where f = sum_list], rule map_cong [OF refl])
       (auto dest: countLabels_entry)
  also have "\<dots> = sum_list (map (\<lambda>k. f (count_list ls k)) (map fst (countLabels ls)))"
    by (simp add: comp_def)
  also have "\<dots> = (\<Sum>k\<in>set (map fst (countLabels ls)). f (count_list ls k))"
    by (rule sum_list_distinct_conv_sum_set) (rule countLabels_distinct)
  also have "set (map fst (countLabels ls)) = set ls"
    using countLabels_keys [of ls] by simp
  finally show ?thesis .
qed

lemma giniImpurity_sum:
  "giniImpurity labels =
     1 - (\<Sum>c\<in>set labels. (real (count_list labels c) / real (length labels))\<^sup>2)"
proof -
  have "giniImpurity labels =
      1 - sum_list (map (\<lambda>kc. (real (snd kc) / real (length labels))\<^sup>2) (countLabels labels))"
    by (simp add: giniImpurity_def Let_def foldl_plus_sum_list comp_def)
  then show ?thesis
    by (simp only: countLabels_sum [where f = "\<lambda>c. (real c / real (length labels))\<^sup>2"])
qed

lemma count_list_all_same: "\<forall>l\<in>set ls. l = c \<Longrightarrow> count_list ls c = length ls"
  by (induction ls) auto

lemma giniImpurity_single:
  assumes "labels \<noteq> []" and "\<forall>l\<in>set labels. l = c"
  shows "giniImpurity labels = 0"
proof -
  from assms have s: "set labels = {c}"
    by (cases labels) auto
  have "count_list labels c = length labels"
    using assms(2) by (rule count_list_all_same)
  with assms(1) show ?thesis
    by (simp add: giniImpurity_sum s)
qed

lemma length_two_classes:
  "a \<noteq> b \<Longrightarrow> set ls \<subseteq> {a, b} \<Longrightarrow> length ls = count_list ls a + count_list ls b"
  by (induction ls) auto

lemma giniImpurity_balanced:
  assumes "a \<noteq> b" and "set labels \<subseteq> {a, b}"
    and "count_list labels a = count_list labels b" and "labels \<noteq> []"
  shows "giniImpurity labels = 1 / 2"
proof -
  have len: "length labels = 2 * count_list labels b"
    using length_two_classes [OF assms(1,2)] assms(3) by simp
  with assms(4) have pos: "count_list labels b > 0"
    by (cases "count_list labels b") simp_all
  with assms(3) have "count_list labels a > 0"
    by simp
  with pos have "a \<in> set labels" "b \<in> set labels"
    by (auto intro: ccontr)
  with assms(2) have s: "set labels = {a, b}"
    by auto
  have hb: "real (count_list labels b) / real (length labels) = 1 / 2"
    using pos by (simp add: len)
  have ha: "real (count_list labels a) / real (length labels) = 1 / 2"
    using hb by (simp only: assms(3))
  have "(\<Sum>c\<in>{a, b}. (real (count_list labels c) / real (length labels))\<^sup>2)
          = (real (count_list labels a) / real (length labels))\<^sup>2
            + (real (count_list labels b) / real (length labels))\<^sup>2"
    using assms(1) by simp
  then show ?thesis
    unfolding giniImpurity_sum s ha hb by (simp add: power2_eq_square)
qed


section \<open>Properties of the best-split search\<close>

lemma insertionOrder_set: "set (insertionOrder seen xs) = set xs - set seen"
  by (induction xs arbitrary: seen) auto

lemma insertionOrder_distinct: "distinct (insertionOrder seen xs)"
  by (induction xs arbitrary: seen) (auto simp: insertionOrder_set)

lemma insertionOrder_sorted: "sorted xs \<Longrightarrow> sorted (insertionOrder seen xs)"
  by (induction xs arbitrary: seen) (auto simp: insertionOrder_set)

lemma uniqueValuesOf_set: "set (uniqueValuesOf data fi) = observedValues data fi"
  by (simp add: uniqueValuesOf_def spreadSet_def insertionOrder_set observedValues_def)

lemma uniqueValuesOf_distinct: "distinct (uniqueValuesOf data fi)"
  by (simp add: uniqueValuesOf_def spreadSet_def insertionOrder_distinct)

lemma uniqueValuesOf_sorted: "sorted (uniqueValuesOf data fi)"
  by (simp add: uniqueValuesOf_def spreadSet_def insertionOrder_sorted)

lemma uniqueValuesOf_strict:
  assumes "i < j" and "j < length (uniqueValuesOf data fi)"
  shows "uniqueValuesOf data fi ! i < uniqueValuesOf data fi ! j"
proof -
  let ?u = "uniqueValuesOf data fi"
  have "?u ! i \<le> ?u ! j"
    using assms uniqueValuesOf_sorted [of data fi] by (simp add: sorted_iff_nth_mono)
  moreover have "?u ! i \<noteq> ?u ! j"
    using assms uniqueValuesOf_distinct [of data fi] by (simp add: nth_eq_iff_index_eq)
  ultimately show ?thesis by simp
qed

text \<open>The splits the two loops visit, in the order they visit them.\<close>

definition candidatesOf :: "DataPoint list \<Rightarrow> nat \<Rightarrow> Split list" where
  "candidatesOf data fi =
     (let u = uniqueValuesOf data fi
      in map (\<lambda>i. splitAt data fi ((u ! i + u ! (i + 1)) / 2)) [0..<length u - 1])"

definition candidates :: "DataPoint list \<Rightarrow> nat list \<Rightarrow> Split list" where
  "candidates data fis = concat (map (candidatesOf data) fis)"

lemma considerThreshold_keepBetter:
  "considerThreshold data fi u = (\<lambda>i. keepBetter data (splitAt data fi ((u ! i + u ! (i + 1)) / 2)))"
  by (intro ext) (simp add: considerThreshold_def)

lemma considerFeature_fold:
  "considerFeature data fi best = fold (keepBetter data) (candidatesOf data fi) best"
  by (simp add: considerFeature_def candidatesOf_def Let_def fold_map comp_def
      considerThreshold_keepBetter)

lemma fold_considerFeature:
  "fold (considerFeature data) fis best = fold (keepBetter data) (candidates data fis) best"
  by (induction fis arbitrary: best) (simp_all add: candidates_def considerFeature_fold)

lemma findBestSplit_fold:
  "findBestSplit data fis = snd (fold (keepBetter data) (candidates data fis) (Infinity, None))"
  by (simp add: findBestSplit_def fold_considerFeature)

text \<open>The loop invariant: \<open>bestGini\<close> is the impurity of \<open>bestSplit\<close>, or nothing was kept yet.\<close>

fun consistent :: "DataPoint list \<Rightarrow> bound \<times> Split option \<Rightarrow> bool" where
  "consistent data (Infinity, None) = True"
| "consistent data (Finite g, Some s) = (g = weightedGini data s)"
| "consistent data _ = False"

lemma keepBetter_consistent: "consistent data best \<Longrightarrow> consistent data (keepBetter data s best)"
  by (cases best) (simp add: keepBetter_def Let_def)

lemma fold_keepBetter_consistent:
  "consistent data best \<Longrightarrow> consistent data (fold (keepBetter data) cs best)"
  by (induction cs arbitrary: best) (simp_all add: keepBetter_consistent)


lemma fold_keepBetter_Some:
  assumes "consistent data best" and "snd (fold (keepBetter data) cs best) = Some s"
  shows "(snd best = Some s \<or> s \<in> set cs) \<and> (\<forall>c\<in>set cs. weightedGini data s \<le> weightedGini data c)
         \<and> \<not> below (weightedGini data s) (fst (fold (keepBetter data) cs best))
         \<and> (\<forall>g. \<not> below g (fst best) \<longrightarrow> \<not> below g (Finite (weightedGini data s)))"
  using assms
proof (induction cs arbitrary: best)
  case Nil
  then show ?case
    by (cases "(data, best)" rule: consistent.cases) simp_all
next
  case (Cons c cs)
  let ?b = "keepBetter data c best"
  have cb: "consistent data ?b"
    by (rule keepBetter_consistent) (rule Cons.prems)
  from Cons.prems(2) have "snd (fold (keepBetter data) cs ?b) = Some s"
    by simp
  from Cons.IH [OF cb this]
  have ih: "snd ?b = Some s \<or> s \<in> set cs" "\<forall>c\<in>set cs. weightedGini data s \<le> weightedGini data c"
    "\<not> below (weightedGini data s) (fst (fold (keepBetter data) cs ?b))"
    "\<forall>g. \<not> below g (fst ?b) \<longrightarrow> \<not> below g (Finite (weightedGini data s))"
    by simp_all
  have step: "\<not> below (weightedGini data c) (fst ?b)"
    "\<forall>g. \<not> below g (fst best) \<longrightarrow> \<not> below g (fst ?b)"
    "snd ?b = snd best \<or> snd ?b = Some c"
    using Cons.prems(1)
    by (cases "(data, best)" rule: consistent.cases; simp add: keepBetter_def Let_def)+
  from ih(4) [rule_format, OF step(1)] have "weightedGini data s \<le> weightedGini data c"
    by simp
  moreover from ih(1) step(3) have "snd best = Some s \<or> s \<in> set (c # cs)"
    by auto
  moreover from ih(4) step(2) have "\<forall>g. \<not> below g (fst best) \<longrightarrow> \<not> below g (Finite (weightedGini data s))"
    by blast
  ultimately show ?case
    using ih(2,3) by simp
qed


lemma findBestSplit_Some:
  assumes "findBestSplit data fis = Some s"
  shows "s \<in> set (candidates data fis)"
    and "\<forall>c\<in>set (candidates data fis). weightedGini data s \<le> weightedGini data c"
  using fold_keepBetter_Some [of data "(Infinity, None)" "candidates data fis" s] assms
  by (simp_all add: findBestSplit_fold)


lemma uniqueValuesOf_adjacent:
  assumes "i < length (uniqueValuesOf data fi) - 1"
  shows "adjacentValues data fi (uniqueValuesOf data fi ! i) (uniqueValuesOf data fi ! (i + 1))"
proof -
  let ?u = "uniqueValuesOf data fi"
  from assms have i: "i < length ?u" "i + 1 < length ?u"
    by simp_all
  have between: "v \<le> ?u ! i \<or> ?u ! (i + 1) \<le> v" if "v \<in> set ?u" for v
  proof -
    from that obtain j where j: "j < length ?u" "v = ?u ! j"
      by (auto simp: in_set_conv_nth)
    show ?thesis
    proof (cases "j \<le> i")
      case True
      with i j show ?thesis
        using uniqueValuesOf_sorted [of data fi] by (simp add: sorted_iff_nth_mono)
    next
      case False
      then have "i + 1 \<le> j" by simp
      with i j show ?thesis
        using uniqueValuesOf_sorted [of data fi] by (simp add: sorted_iff_nth_mono)
    qed
  qed
  have "?u ! i < ?u ! (i + 1)"
    using i by (intro uniqueValuesOf_strict) simp_all
  moreover have "?u ! i \<in> set ?u" "?u ! (i + 1) \<in> set ?u"
    using i by simp_all
  ultimately show ?thesis
    using between by (simp add: adjacentValues_def uniqueValuesOf_set [symmetric])
qed

lemma adjacent_uniqueValuesOf:
  assumes "adjacentValues data fi a b"
  shows "\<exists>i<length (uniqueValuesOf data fi) - 1.
           a = uniqueValuesOf data fi ! i \<and> b = uniqueValuesOf data fi ! (i + 1)"
proof -
  let ?u = "uniqueValuesOf data fi"
  from assms have ab: "a \<in> set ?u" "b \<in> set ?u" "a < b"
    and gap: "\<forall>v\<in>set ?u. v \<le> a \<or> b \<le> v"
    by (simp_all add: adjacentValues_def uniqueValuesOf_set)
  from ab obtain i j where i: "i < length ?u" "a = ?u ! i" and j: "j < length ?u" "b = ?u ! j"
    by (auto simp: in_set_conv_nth)
  have "i < j"
  proof (rule ccontr)
    assume "\<not> i < j"
    then have "j \<le> i" by simp
    with i have "?u ! j \<le> ?u ! i"
      using uniqueValuesOf_sorted [of data fi] by (simp add: sorted_iff_nth_mono)
    with i j ab(3) show False by simp
  qed
  with j have si: "Suc i < length ?u" by simp
  then have "?u ! Suc i \<in> set ?u" by simp
  with gap have "?u ! Suc i \<le> a \<or> b \<le> ?u ! Suc i" by blast
  moreover have "a < ?u ! Suc i"
    using uniqueValuesOf_strict [of i "Suc i" data fi] si i by simp
  ultimately have le: "?u ! j \<le> ?u ! Suc i"
    using j by simp
  have "j = Suc i"
  proof (rule ccontr)
    assume "j \<noteq> Suc i"
    with \<open>i < j\<close> have "Suc i < j" by simp
    then have "?u ! Suc i < ?u ! j"
      using j by (intro uniqueValuesOf_strict)
    with le show False by simp
  qed
  with i j si show ?thesis
    by (intro exI [of _ i]) simp
qed

lemma candidatesOf_iff:
  "s \<in> set (candidatesOf data fi) \<longleftrightarrow>
     (\<exists>a b. adjacentValues data fi a b \<and> s = splitAt data fi ((a + b) / 2))"
proof
  assume "s \<in> set (candidatesOf data fi)"
  then obtain i where "i < length (uniqueValuesOf data fi) - 1"
    and "s = splitAt data fi ((uniqueValuesOf data fi ! i + uniqueValuesOf data fi ! (i + 1)) / 2)"
    by (auto simp: candidatesOf_def Let_def)
  then show "\<exists>a b. adjacentValues data fi a b \<and> s = splitAt data fi ((a + b) / 2)"
    using uniqueValuesOf_adjacent [of i data fi] by blast
next
  assume "\<exists>a b. adjacentValues data fi a b \<and> s = splitAt data fi ((a + b) / 2)"
  then obtain a b where "adjacentValues data fi a b" and s: "s = splitAt data fi ((a + b) / 2)"
    by blast
  from adjacent_uniqueValuesOf [OF this(1)] obtain i
    where "i < length (uniqueValuesOf data fi) - 1"
      and "a = uniqueValuesOf data fi ! i" and "b = uniqueValuesOf data fi ! (i + 1)"
    by blast
  with s show "s \<in> set (candidatesOf data fi)"
    by (auto simp: candidatesOf_def Let_def)
qed

lemma candidates_iff:
  "s \<in> set (candidates data fis) \<longleftrightarrow>
     (\<exists>fi\<in>set fis. \<exists>a b. adjacentValues data fi a b \<and> s = splitAt data fi ((a + b) / 2))"
  by (auto simp: candidates_def candidatesOf_iff)



lemma findBestSplit_shape:
  assumes "findBestSplit data fis = Some s"
  shows "\<exists>fi\<in>set fis. \<exists>a b. adjacentValues data fi a b \<and> s = splitAt data fi ((a + b) / 2)"
  using findBestSplit_Some(1) [OF assms] by (simp add: candidates_iff)

lemma filter_nonempty: "x \<in> set xs \<Longrightarrow> P x \<Longrightarrow> filter P xs \<noteq> []"
  by (auto simp: filter_empty_conv)

lemma splitAt_sides:
  "left (splitAt data fi t) = filter (\<lambda>d. features d ! fi \<le> t) data"
  "right (splitAt data fi t) = filter (\<lambda>d. features d ! fi > t) data"
  by (simp_all add: splitAt_def)

lemma splitAt_adjacent_nonempty:
  assumes "adjacentValues data fi a b"
  shows "left (splitAt data fi ((a + b) / 2)) \<noteq> []" and "right (splitAt data fi ((a + b) / 2)) \<noteq> []"
proof -
  from assms obtain da db where da: "da \<in> set data" "features da ! fi = a"
    and db: "db \<in> set data" "features db ! fi = b" and "a < b"
    by (auto simp: adjacentValues_def observedValues_def)
  then have "features da ! fi \<le> (a + b) / 2" "(a + b) / 2 < features db ! fi"
    by simp_all
  with da(1) db(1) show "left (splitAt data fi ((a + b) / 2)) \<noteq> []"
    and "right (splitAt data fi ((a + b) / 2)) \<noteq> []"
    by (simp_all only: splitAt_sides) (rule filter_nonempty, assumption, assumption)+
qed

lemma splitAt_lengths:
  "length (left (splitAt data fi t)) + length (right (splitAt data fi t)) = length data"
  using sum_length_filter_compl [of "\<lambda>d. features d ! fi \<le> t" data]
  by (simp add: splitAt_def not_le)

lemma findBestSplit_smaller:
  assumes "findBestSplit data fis = Some s"
  shows "left s \<noteq> []" and "right s \<noteq> []"
    and "length (left s) < length data" and "length (right s) < length data"
proof -
  from findBestSplit_shape [OF assms] obtain fi a b
    where adj: "adjacentValues data fi a b" and s: "s = splitAt data fi ((a + b) / 2)"
    by blast
  show l: "left s \<noteq> []" and r: "right s \<noteq> []"
    using splitAt_adjacent_nonempty [OF adj] by (simp_all add: s)
  have "length (left s) + length (right s) = length data"
    by (simp add: s splitAt_lengths)
  with l r show "length (left s) < length data" and "length (right s) < length data"
    by (cases "left s"; cases "right s"; simp)+
qed

section \<open>Forest worker: tree induction and prediction\<close>

text \<open>
  A tree node is either \<^verbatim>\<open>{ distribution }\<close> or
  \<^verbatim>\<open>{ featureIndex, threshold, left, right }\<close>; the prediction loops tell them apart
  by \<^verbatim>\<open>node.featureIndex !== undefined\<close>.
\<close>

datatype TreeNode =
  Leaf "(int \<times> real) list"
| Internal nat real TreeNode TreeNode

datatype error = TypeError | VectorLengthError | ProviderError

text \<open>
  \<^verbatim>\<open>
  const distribution = {};
  data.forEach((d) => { distribution[d.label] = (distribution[d.label] || 0) + 1; });
  Object.keys(distribution).forEach((key) => { distribution[key] /= data.length; });
  return { distribution };
  \<close>
\<close>

definition leafDistribution :: "DataPoint list \<Rightarrow> (int \<times> real) list" where
  "leafDistribution data =
     map (\<lambda>(key, count). (key, real count / real (length data))) (countLabels (map label data))"

text \<open>
  \<^verbatim>\<open>
  function buildTree(data, depth) {
    if (depth === maxDepth || data.length < minSamplesSplit ||
        new Set(data.map((d) => d.label)).size === 1) { ... return { distribution }; }
    const featureIndices = Array.from({ length: data[0].features.length }, (_, i) => i);
    const selectedFeatures = featureIndices.sort(() => 0.5 - Math.random()).slice(0, numFeatures);
    const split = findBestSplit({ data, featureIndices: selectedFeatures });
    if (!split) { ... return { distribution }; }
    const { featureIndex, threshold, left, right } = split;
    return { featureIndex, threshold,
             left: buildTree(left, depth + 1), right: buildTree(right, depth + 1) };
  }
  \<close>
  The random comparator makes \<^verbatim>\<open>sort\<close> return some rearrangement of the indices. The
  model takes it from a parameter \<open>shuffle\<close> that is asked once per call of \<open>buildTree\<close>,
  with the position of the call in the tree (the list of turns from the root, \<open>False\<close> for
  left), so that every call may receive another rearrangement.
  \<^verbatim>\<open>data[0].features\<close> on an empty array throws a TypeError.
\<close>

function buildTree ::
  "nat \<Rightarrow> nat \<Rightarrow> nat \<Rightarrow> (bool list \<Rightarrow> nat list \<Rightarrow> nat list) \<Rightarrow> bool list \<Rightarrow>
   DataPoint list \<Rightarrow> nat \<Rightarrow> error + TreeNode" where
  "buildTree maxDepth minSamplesSplit numFeatures shuffle path data depth =
     (if depth = maxDepth \<or> length data < minSamplesSplit \<or> card (set (map label data)) = 1
      then Inr (Leaf (leafDistribution data))
      else case data of
        [] \<Rightarrow> Inl TypeError
      | d0 # _ \<Rightarrow>
          (let featureIndices = [0..<length (features d0)];
               selectedFeatures = take numFeatures (shuffle path featureIndices)
           in case findBestSplit data selectedFeatures of
             None \<Rightarrow> Inr (Leaf (leafDistribution data))
           | Some split \<Rightarrow>
               (case buildTree maxDepth minSamplesSplit numFeatures shuffle (path @ [False])
                       (left split) (depth + 1) of
                  Inl e \<Rightarrow> Inl e
                | Inr l \<Rightarrow>
                    (case buildTree maxDepth minSamplesSplit numFeatures shuffle (path @ [True])
                            (right split) (depth + 1) of
                       Inl e \<Rightarrow> Inl e
                     | Inr r \<Rightarrow> Inr (Internal (featureIndex split) (threshold split) l r)))))"
  by pat_completeness auto
termination
proof (relation "measure (\<lambda>(maxDepth, minSamplesSplit, numFeatures, shuffle, path, data, depth).
    length data)")
  show "wf (measure (\<lambda>(maxDepth, minSamplesSplit, numFeatures, shuffle, path, data, depth).
    length (data :: DataPoint list)))"
    by simp
qed (auto dest: findBestSplit_smaller(3) findBestSplit_smaller(4))

declare buildTree.simps [simp del]

text \<open>
  \<^verbatim>\<open>createDecisionTree({ data, maxDepth, minSamplesSplit, numFeatures })\<close> builds the root
  at depth 0; its three prediction closures walk from the root to a leaf.
\<close>

definition createDecisionTree ::
  "nat \<Rightarrow> nat \<Rightarrow> nat \<Rightarrow> (bool list \<Rightarrow> nat list \<Rightarrow> nat list) \<Rightarrow> DataPoint list \<Rightarrow> error + TreeNode" where
  "createDecisionTree maxDepth minSamplesSplit numFeatures shuffle data =
     buildTree maxDepth minSamplesSplit numFeatures shuffle [] data 0"

text \<open>
  \<^verbatim>\<open>
  let node = root;
  while (node.featureIndex !== undefined) {
    if (features[node.featureIndex] <= node.threshold) node = node.left; else node = node.right;
  }
  \<close>
  A feature read beyond the vector is \<^verbatim>\<open>undefined\<close>, and \<^verbatim>\<open>undefined <= t\<close> is false.
\<close>

fun descend :: "TreeNode \<Rightarrow> real list \<Rightarrow> (int \<times> real) list" where
  "descend (Leaf distribution) fs = distribution"
| "descend (Internal fi t l r) fs =
     (if fi < length fs \<and> fs ! fi \<le> t then descend l fs else descend r fs)"


text \<open>\<^verbatim>\<open>return node.distribution[className] || 0;\<close>\<close>

definition treePredictProba :: "TreeNode \<Rightarrow> real list \<Rightarrow> int \<Rightarrow> real" where
  "treePredictProba tree fs className =
     (case map_of (descend tree fs) className of None \<Rightarrow> 0 | Some p \<Rightarrow> p)"



section \<open>Forest worker: bagging and the exposed object\<close>

text \<open>
  A JavaScript number that may be \<^verbatim>\<open>NaN\<close>: the quotient \<^verbatim>\<open>0 / 0\<close> where the code
  can reach it.
\<close>

datatype number = Num real | NaN

text \<open>
  \<^verbatim>\<open>
  const baggedData = Array.from({ length: data.length },
    () => data[Math.floor(Math.random() * data.length)]);
  \<close>
  \<open>random j\<close> is the value \<^verbatim>\<open>Math.random()\<close> returns for position \<open>j\<close>, in \<open>[0, 1)\<close>.
\<close>

definition baggedData :: "(nat \<Rightarrow> real) \<Rightarrow> DataPoint list \<Rightarrow> DataPoint list" where
  "baggedData random data =
     map (\<lambda>j. data ! nat \<lfloor>random j * real (length data)\<rfloor>) [0..<length data]"

text \<open>
  \<^verbatim>\<open>
  train: (data) => {
    const trees = [];
    for (let i = 0; i < numTrees; i++) {
      const baggedData = ...;
      trees.push(createDecisionTree({ data: baggedData, maxDepth, minSamplesSplit, numFeatures }));
    }
    return { trees, predict, predictProba, predictProbaAll };
  }
  \<close>
  Tree \<open>i\<close> draws its bootstrap sample from \<open>random i\<close> and its feature orders from
  \<open>shuffle i\<close>. An exception in one tree ends the loop.
\<close>

fun growTrees ::
  "nat \<Rightarrow> nat \<Rightarrow> nat \<Rightarrow> (nat \<Rightarrow> nat \<Rightarrow> real) \<Rightarrow> (nat \<Rightarrow> bool list \<Rightarrow> nat list \<Rightarrow> nat list) \<Rightarrow>
   DataPoint list \<Rightarrow> nat list \<Rightarrow> error + TreeNode list" where
  "growTrees maxDepth minSamplesSplit numFeatures random shuffle data [] = Inr []"
| "growTrees maxDepth minSamplesSplit numFeatures random shuffle data (i # rest) =
     (case createDecisionTree maxDepth minSamplesSplit numFeatures (shuffle i)
             (baggedData (random i) data) of
        Inl e \<Rightarrow> Inl e
      | Inr tree \<Rightarrow>
          (case growTrees maxDepth minSamplesSplit numFeatures random shuffle data rest of
             Inl e \<Rightarrow> Inl e
           | Inr trees \<Rightarrow> Inr (tree # trees)))"

definition train ::
  "nat \<Rightarrow> nat \<Rightarrow> nat \<Rightarrow> nat \<Rightarrow> (nat \<Rightarrow> nat \<Rightarrow> real) \<Rightarrow> (nat \<Rightarrow> bool list \<Rightarrow> nat list \<Rightarrow> nat list) \<Rightarrow>
   DataPoint list \<Rightarrow> error + TreeNode list" where
  "train numTrees maxDepth minSamplesSplit numFeatures random shuffle data =
     growTrees maxDepth minSamplesSplit numFeatures random shuffle data [0..<numTrees]"

text \<open>
  \<^verbatim>\<open>
  predictProba: (features, className) => {
    const probas = trees.map((tree) => tree.predictProba(features, className));
    return probas.reduce((sum, proba) => sum + proba, 0) / trees.length;
  }
  \<close>
  With no tree the quotient is \<^verbatim>\<open>0 / 0\<close>.
\<close>

definition forestPredictProba :: "TreeNode list \<Rightarrow> real list \<Rightarrow> int \<Rightarrow> number" where
  "forestPredictProba trees fs className =
     (let probas = map (\<lambda>tree. treePredictProba tree fs className) trees
      in if length trees = 0 then NaN
         else Num (foldl (\<lambda>sum proba. sum + proba) 0 probas / real (length trees)))"

text \<open>
  The worker keeps the forest in the module variable \<^verbatim>\<open>trainedForest\<close>, undefined until
  the first training.
  \<^verbatim>\<open>
  train({ predictions, trainingSet }) {
    const rf = createRandomForest({ numTrees: 100, maxDepth: 20, minSamplesSplit: 2,
                                    numFeatures: trainingSet[0]?.length ?? 0 });
    trainedForest = rf.train(trainingSet.map((features, i) => ({ features, label: predictions[i] })));
    return { version: Date.now() };
  },
  predictProba(features, c) { return trainedForest.predictProba(features, c); }
  \<close>
  \<open>now\<close> is the value of \<^verbatim>\<open>Date.now()\<close>. \<^verbatim>\<open>predictions[i]\<close> is read with \<open>!\<close>: the caller
  passes two arrays of one length.
\<close>

record Worker =
  trainedForest :: "TreeNode list option"

definition object_train ::
  "(nat \<Rightarrow> nat \<Rightarrow> real) \<Rightarrow> (nat \<Rightarrow> bool list \<Rightarrow> nat list \<Rightarrow> nat list) \<Rightarrow> nat \<Rightarrow>
   int list \<Rightarrow> real list list \<Rightarrow> Worker \<Rightarrow> (error + nat) \<times> Worker" where
  "object_train random shuffle now predictions trainingSet w =
     (let numFeatures = (case trainingSet of [] \<Rightarrow> 0 | fs # _ \<Rightarrow> length fs);
          data = map (\<lambda>i. \<lparr>features = trainingSet ! i, label = predictions ! i\<rparr>)
                     [0..<length trainingSet]
      in case train 100 20 2 numFeatures random shuffle data of
           Inl e \<Rightarrow> (Inl e, w)
         | Inr trees \<Rightarrow> (Inr now, w\<lparr>trainedForest := Some trees\<rparr>))"

definition object_predictProba :: "real list \<Rightarrow> int \<Rightarrow> Worker \<Rightarrow> error + number" where
  "object_predictProba fs c w =
     (case trainedForest w of
        None \<Rightarrow> Inl TypeError
      | Some trees \<Rightarrow> Inr (forestPredictProba trees fs c))"

section \<open>Page: training requests\<close>

text \<open>
  The page holds \<^verbatim>\<open>images: File[]\<close>, \<^verbatim>\<open>imagePreference: Map<File, boolean>\<close> and
  \<^verbatim>\<open>imagesWithEmbeddings: Map<File, { floatEmbedding: number[] }>\<close>. Files are compared
  by identity; the model is polymorphic in their type. \<^verbatim>\<open>imagePreference\<close> is an
  association list in insertion order (its keys are distinct), \<^verbatim>\<open>imagesWithEmbeddings\<close>
  a partial function. The code tests \<^verbatim>\<open>floatEmbedding\<close> against null although its type
  excludes it, so the field is optional here.
\<close>

record EmbeddingResult =
  floatEmbedding :: "real list option"

datatype SortingMethod = Cosine | Forest

text \<open>\<^verbatim>\<open>imagesWithEmbeddings.get(file)?.floatEmbedding\<close>\<close>

definition floatEmbeddingOf :: "('f \<rightharpoonup> EmbeddingResult) \<Rightarrow> 'f \<Rightarrow> real list option" where
  "floatEmbeddingOf imagesWithEmbeddings file =
     (case imagesWithEmbeddings file of None \<Rightarrow> None | Some e \<Rightarrow> floatEmbedding e)"

text \<open>
  The fetcher of \<^verbatim>\<open>forestWorkerResult\<close>:
  \<^verbatim>\<open>
  async (args) => {
    if (args.images.length === 0) return;
    if (sortingMethod !== 'forest') return;
    if (args.imagePreference.size === 0) return;
    const labeledImages = [...args.imagePreference.entries()].map(([file, liked]) => ({
      file, liked, embedding: args.imagesWithEmbeddings.get(file)?.floatEmbedding }));
    if (labeledImages.some((i) => i.embedding == null)) return;
    return {
      ...(await args.forestTrainer.train({
        trainingSet: labeledImages.map((i) => i.embedding!),
        predictions: labeledImages.map((i) => (i.liked ? 1 : 0)) })),
      predictProba: args.forestTrainer.predictProba };
  }
  \<close>
  The fetcher runs only once the forest worker is loaded (the key is false before). The
  result is the version of the new forest, or nothing; the worker is passed through.
\<close>

definition forestWorkerResult ::
  "(nat \<Rightarrow> nat \<Rightarrow> real) \<Rightarrow> (nat \<Rightarrow> bool list \<Rightarrow> nat list \<Rightarrow> nat list) \<Rightarrow> nat \<Rightarrow>
   'f list \<Rightarrow> ('f \<times> bool) list \<Rightarrow> ('f \<rightharpoonup> EmbeddingResult) \<Rightarrow> SortingMethod \<Rightarrow> Worker \<Rightarrow>
   (error + nat option) \<times> Worker" where
  "forestWorkerResult random shuffle now images imagePreference imagesWithEmbeddings sortingMethod w =
     (if length images = 0 then (Inr None, w)
      else if sortingMethod \<noteq> Forest then (Inr None, w)
      else if length imagePreference = 0 then (Inr None, w)
      else
        let labeledImages =
              map (\<lambda>(file, liked). (file, liked, floatEmbeddingOf imagesWithEmbeddings file))
                  imagePreference
        in if \<exists>i\<in>set labeledImages. snd (snd i) = None then (Inr None, w)
           else
             case object_train random shuffle now
                    (map (\<lambda>i. if fst (snd i) then 1 else 0) labeledImages)
                    (map (\<lambda>i. the (snd (snd i))) labeledImages) w of
               (Inl e, w') \<Rightarrow> (Inl e, w')
             | (Inr version, w') \<Rightarrow> (Inr (Some version), w'))"

section \<open>Page: similarity scores\<close>

text \<open>
  \<^verbatim>\<open>
  function cosineSimilarity(vecA: number[], vecB: number[]): number {
    let dotProduct = 0; let normA = 0; let normB = 0;
    if (vecA.length !== vecB.length) throw new Error('Vectors must have the same length');
    for (let i = 0; i < vecA.length; i++) {
      dotProduct += vecA[i]! * vecB[i]!;
      normA += vecA[i]! * vecA[i]!;
      normB += vecB[i]! * vecB[i]!;
    }
    return dotProduct / (Math.sqrt(normA) * Math.sqrt(normB));
  }
  \<close>
  The loop is a fold over the triple \<open>(dotProduct, normA, normB)\<close>. When the denominator is
  0 one of the vectors is all zeros, the numerator is 0 too, and the quotient is
  \<^verbatim>\<open>NaN\<close>.
\<close>

definition cosineStep ::
  "real list \<Rightarrow> real list \<Rightarrow> nat \<Rightarrow> real \<times> real \<times> real \<Rightarrow> real \<times> real \<times> real" where
  "cosineStep vecA vecB i acc =
     (case acc of (dotProduct, normA, normB) \<Rightarrow>
        (dotProduct + vecA ! i * vecB ! i, normA + vecA ! i * vecA ! i, normB + vecB ! i * vecB ! i))"

definition cosineSimilarity :: "real list \<Rightarrow> real list \<Rightarrow> error + number" where
  "cosineSimilarity vecA vecB =
     (if length vecA \<noteq> length vecB then Inl VectorLengthError
      else case fold (cosineStep vecA vecB) [0..<length vecA] (0, 0, 0) of
        (dotProduct, normA, normB) \<Rightarrow>
          Inr (if sqrt normA * sqrt normB = 0 then NaN
               else Num (dotProduct / (sqrt normA * sqrt normB))))"

text \<open>Addition and subtraction of numbers that may be \<^verbatim>\<open>NaN\<close>.\<close>

fun plus_number :: "number \<Rightarrow> number \<Rightarrow> number" where
  "plus_number (Num x) (Num y) = Num (x + y)"
| "plus_number _ _ = NaN"

fun minus_number :: "number \<Rightarrow> number \<Rightarrow> number" where
  "minus_number (Num x) (Num y) = Num (x - y)"
| "minus_number _ _ = NaN"

text \<open>
  \<^verbatim>\<open>
  likedImageEmbeddings.reduce((acc, liked) => {
    const likedEmbedding = liked.floatEmbedding;
    if (likedEmbedding == null) return acc;
    return acc + cosineSimilarity(imageFloatEmbedding, likedEmbedding);
  }, 0)
  \<close>
  An exception of \<open>cosineSimilarity\<close> ends the reduction.
\<close>

fun reduceSimilarity :: "real list \<Rightarrow> EmbeddingResult list \<Rightarrow> number \<Rightarrow> error + number" where
  "reduceSimilarity imageFloatEmbedding [] acc = Inr acc"
| "reduceSimilarity imageFloatEmbedding (labeled # rest) acc =
     (case floatEmbedding labeled of
        None \<Rightarrow> reduceSimilarity imageFloatEmbedding rest acc
      | Some labeledEmbedding \<Rightarrow>
          (case cosineSimilarity imageFloatEmbedding labeledEmbedding of
             Inl e \<Rightarrow> Inl e
           | Inr c \<Rightarrow> reduceSimilarity imageFloatEmbedding rest (plus_number acc c)))"

text \<open>
  \<^verbatim>\<open>
  const likedImageEmbeddings = compact(
    [...imagePreference.keys()]
      .filter((file) => imagePreference.get(file) === true)
      .map((file) => imagesWithEmbeddings.get(file)));
  \<close>
  and the same with \<^verbatim>\<open>false\<close> for the disliked images.
\<close>

definition labeledImageEmbeddings ::
  "bool \<Rightarrow> ('f \<times> bool) list \<Rightarrow> ('f \<rightharpoonup> EmbeddingResult) \<Rightarrow> EmbeddingResult list" where
  "labeledImageEmbeddings liked imagePreference imagesWithEmbeddings =
     List.map_filter imagesWithEmbeddings
       (filter (\<lambda>file. map_of imagePreference file = Some liked) (map fst imagePreference))"

text \<open>
  \<^verbatim>\<open>
  const score = imageFloatEmbedding == null ? undefined
    : likedImageEmbeddings.reduce(..., 0) - dislikedImageEmbeddings.reduce(..., 0);
  \<close>
\<close>

definition similarityScore ::
  "('f \<times> bool) list \<Rightarrow> ('f \<rightharpoonup> EmbeddingResult) \<Rightarrow> 'f \<Rightarrow> error + number option" where
  "similarityScore imagePreference imagesWithEmbeddings file =
     (case floatEmbeddingOf imagesWithEmbeddings file of
        None \<Rightarrow> Inr None
      | Some imageFloatEmbedding \<Rightarrow>
          (case reduceSimilarity imageFloatEmbedding
                  (labeledImageEmbeddings True imagePreference imagesWithEmbeddings) (Num 0) of
             Inl e \<Rightarrow> Inl e
           | Inr likedSum \<Rightarrow>
               (case reduceSimilarity imageFloatEmbedding
                       (labeledImageEmbeddings False imagePreference imagesWithEmbeddings) (Num 0) of
                  Inl e \<Rightarrow> Inl e
                | Inr dislikedSum \<Rightarrow> Inr (Some (minus_number likedSum dislikedSum)))))"

text \<open>
  The specification's wording of the score: the cosine similarity is
  \<open>dot a b / (\<parallel>a\<parallel> * \<parallel>b\<parallel>)\<close>, the labeled vectors are the embeddings of the images
  with that label that have one, and an empty sum is 0.
\<close>

definition dot :: "real list \<Rightarrow> real list \<Rightarrow> real" where
  "dot a b = sum_list (map2 (*) a b)"




section \<open>Page: the final order\<close>

text \<open>The objects \<^verbatim>\<open>{ file, score, scoreRf, scoreFinal }\<close>; \<open>None\<close> is \<^verbatim>\<open>undefined\<close>.\<close>

record 'f Ranking =
  "file" :: 'f
  score :: "number option"
  scoreRf :: "number option"
  scoreFinal :: "number option"

definition rankImage ::
  "('f \<times> bool) list \<Rightarrow> ('f \<rightharpoonup> EmbeddingResult) \<Rightarrow> ('f \<rightharpoonup> number) option \<Rightarrow> SortingMethod \<Rightarrow>
   'f \<Rightarrow> error + 'f Ranking" where
  "rankImage imagePreference imagesWithEmbeddings imageForestPredictions sortingMethod f =
     (case similarityScore imagePreference imagesWithEmbeddings f of
        Inl e \<Rightarrow> Inl e
      | Inr sc \<Rightarrow>
          (let rf = (case imageForestPredictions of None \<Rightarrow> None | Some predictions \<Rightarrow> predictions f)
           in Inr \<lparr>file = f, score = sc, scoreRf = rf,
                   scoreFinal = (if sortingMethod = Forest then rf else sc)\<rparr>))"

text \<open>\<^verbatim>\<open>images.map(...)\<close> with a callback that may throw: the first exception ends the map.\<close>

fun mapResult :: "('a \<Rightarrow> error + 'b) \<Rightarrow> 'a list \<Rightarrow> error + 'b list" where
  "mapResult f [] = Inr []"
| "mapResult f (x # xs) =
     (case f x of
        Inl e \<Rightarrow> Inl e
      | Inr y \<Rightarrow> (case mapResult f xs of Inl e \<Rightarrow> Inl e | Inr ys \<Rightarrow> Inr (y # ys)))"

text \<open>
  The values the three iteratees of \<^verbatim>\<open>sortBy\<close> return: booleans, and a number or
  \<^verbatim>\<open>undefined\<close>.
\<close>

datatype crit = Bool bool | Number number | Undefined

text \<open>
  Lodash's \<^verbatim>\<open>sortBy\<close> is a library function, modelled from its source
  (\<^verbatim>\<open>compareAscending\<close>, \<^verbatim>\<open>compareMultiple\<close>, \<^verbatim>\<open>baseSortBy\<close>), without the branches
  for \<^verbatim>\<open>null\<close> and symbols, which no iteratee here returns:
  \<^verbatim>\<open>
  function compareAscending(value, other) {
    if (value !== other) {
      var valIsDefined = value !== undefined, valIsReflexive = value === value;
      var othIsDefined = other !== undefined, othIsReflexive = other === other;
      if (value > other || (!valIsDefined && othIsReflexive) || !valIsReflexive) return 1;
      if (value < other || (!othIsDefined && valIsReflexive) || !othIsReflexive) return -1;
    }
    return 0;
  }
  \<close>
  \<^verbatim>\<open><\<close> and \<^verbatim>\<open>>\<close> convert both sides to numbers (\<^verbatim>\<open>true\<close> to 1, \<^verbatim>\<open>false\<close> to 0,
  \<^verbatim>\<open>undefined\<close> to \<^verbatim>\<open>NaN\<close>) and are false when a side is \<^verbatim>\<open>NaN\<close>.
\<close>

fun toNumber :: "crit \<Rightarrow> number" where
  "toNumber (Bool b) = Num (if b then 1 else 0)"
| "toNumber (Number n) = n"
| "toNumber Undefined = NaN"

definition jsLess :: "crit \<Rightarrow> crit \<Rightarrow> bool" where
  "jsLess a b = (case (toNumber a, toNumber b) of (Num x, Num y) \<Rightarrow> x < y | _ \<Rightarrow> False)"

definition strictEquals :: "crit \<Rightarrow> crit \<Rightarrow> bool" where
  "strictEquals a b = (a = b \<and> a \<noteq> Number NaN)"

definition compareAscending :: "crit \<Rightarrow> crit \<Rightarrow> int" where
  "compareAscending val oth =
     (if \<not> strictEquals val oth then
        (let valIsDefined = (val \<noteq> Undefined); valIsReflexive = strictEquals val val;
             othIsDefined = (oth \<noteq> Undefined); othIsReflexive = strictEquals oth oth
         in if jsLess oth val \<or> (\<not> valIsDefined \<and> othIsReflexive) \<or> \<not> valIsReflexive then 1
            else if jsLess val oth \<or> (\<not> othIsDefined \<and> valIsReflexive) \<or> \<not> othIsReflexive then - 1
            else 0)
      else 0)"

text \<open>
  \<^verbatim>\<open>compareMultiple\<close> compares the criteria of two elements in turn and returns the first
  result that is not 0; when all are 0 it compares the positions of the elements in the
  input, which keeps equal elements in their input order.
\<close>

fun compareMultiple :: "crit list \<Rightarrow> crit list \<Rightarrow> int" where
  "compareMultiple (a # as) (b # bs) =
     (let result = compareAscending a b in if result \<noteq> 0 then result else compareMultiple as bs)"
| "compareMultiple _ _ = 0"

text \<open>
  \<^verbatim>\<open>baseSortBy\<close> sorts with \<^verbatim>\<open>Array.prototype.sort\<close> and that comparer. The model is the
  stable insertion sort: an element goes in front of the first one it does not exceed.
\<close>

fun insertSorted :: "('a \<Rightarrow> crit list) \<Rightarrow> 'a \<Rightarrow> 'a list \<Rightarrow> 'a list" where
  "insertSorted criteria x [] = [x]"
| "insertSorted criteria x (y # ys) =
     (if compareMultiple (criteria x) (criteria y) \<le> 0 then x # y # ys
      else y # insertSorted criteria x ys)"

definition sortBy :: "('a \<Rightarrow> crit) list \<Rightarrow> 'a list \<Rightarrow> 'a list" where
  "sortBy iteratees collection =
     foldr (insertSorted (\<lambda>x. map (\<lambda>iteratee. iteratee x) iteratees)) collection []"

text \<open>
  \<^verbatim>\<open>
  return sortBy(
    imagesWithRankings.reverse(),
    (i) => imagePreference.get(i.file) === true,
    (i) => !(imagePreference.get(i.file) === false),
    (i) => i.scoreFinal,
  ).reverse();
  \<close>
\<close>

definition scoreCrit :: "number option \<Rightarrow> crit" where
  "scoreCrit s = (case s of None \<Rightarrow> Undefined | Some n \<Rightarrow> Number n)"

definition iteratees :: "('f \<times> bool) list \<Rightarrow> ('f Ranking \<Rightarrow> crit) list" where
  "iteratees imagePreference =
     [\<lambda>i. Bool (map_of imagePreference (file i) = Some True),
      \<lambda>i. Bool (\<not> (map_of imagePreference (file i) = Some False)),
      \<lambda>i. scoreCrit (scoreFinal i)]"

definition finalOrder :: "('f \<times> bool) list \<Rightarrow> 'f Ranking list \<Rightarrow> 'f Ranking list" where
  "finalOrder imagePreference imagesWithRankings =
     rev (sortBy (iteratees imagePreference) (rev imagesWithRankings))"

definition imagesSorted ::
  "'f list \<Rightarrow> ('f \<times> bool) list \<Rightarrow> ('f \<rightharpoonup> EmbeddingResult) \<Rightarrow> ('f \<rightharpoonup> number) option \<Rightarrow>
   SortingMethod \<Rightarrow> error + 'f Ranking list" where
  "imagesSorted images imagePreference imagesWithEmbeddings imageForestPredictions sortingMethod =
     (case mapResult (rankImage imagePreference imagesWithEmbeddings imageForestPredictions
                        sortingMethod) images of
        Inl e \<Rightarrow> Inl e
      | Inr imagesWithRankings \<Rightarrow> Inr (finalOrder imagePreference imagesWithRankings))"

text \<open>The label of an image, as the specification names it.\<close>

datatype LabelStatus = Disliked | Unlabeled | Liked

definition labelStatus :: "('f \<times> bool) list \<Rightarrow> 'f \<Rightarrow> LabelStatus" where
  "labelStatus imagePreference f =
     (case map_of imagePreference f of
        None \<Rightarrow> Unlabeled
      | Some liked \<Rightarrow> (if liked then Liked else Disliked))"

fun labelRank :: "LabelStatus \<Rightarrow> nat" where
  "labelRank Disliked = 0"
| "labelRank Unlabeled = 1"
| "labelRank Liked = 2"

section \<open>Page: the embedding effect\<close>

text \<open>
  \<^verbatim>\<open>
  React.useEffect(() => {
    const abortController = new AbortController();
    (async () => {
      setFinished(0);
      if (abortController.signal.aborted) return;
      const results = await pMap(images, async (file) => {
          if (abortController.signal.aborted) return;
          const imageEmbedder = oneOf(imageEmbedders ?? []);
          if (imageEmbedder == null) return;
          const url = URL.createObjectURL(file);
          try {
            const embedding = await imageEmbedder.createEmbedding(url);
            if (abortController.signal.aborted) return;
            setFinished((prev) => prev + 1);
            return { file, embedding };
          } finally { URL.revokeObjectURL(url); }
        }, { concurrency: 10 });
      if (abortController.signal.aborted) return;
      setImagesWithEmbeddings(new Map(compact(results).map((r) => [r.file, r.embedding])));
    })();
    return () => abortController.abort();
  }, [imageEmbedders, images]);
  \<close>
  The model follows the published map \<^verbatim>\<open>imagesWithEmbeddings\<close>; the progress counter
  \<^verbatim>\<open>finished\<close> is left out. The async function reads the abort flag at four kinds of
  places; \<open>aborted\<close> tells what it reads at each. \<open>createEmbedding\<close> is the provider: it
  returns an embedding or throws. \<open>embeddersLoaded\<close> is false while \<^verbatim>\<open>imageEmbedders\<close> is
  undefined. The \<^verbatim>\<open>try\<close> has a \<^verbatim>\<open>finally\<close> and no \<^verbatim>\<open>catch\<close>: what the provider throws,
  the callback throws.
\<close>

datatype checkpoint = AtStart | BeforeItem nat | AfterItem nat | BeforePublish

definition embedItem ::
  "(checkpoint \<Rightarrow> bool) \<Rightarrow> bool \<Rightarrow> ('f \<Rightarrow> error + EmbeddingResult) \<Rightarrow> nat \<Rightarrow> 'f \<Rightarrow>
   error + ('f \<times> EmbeddingResult) option" where
  "embedItem aborted embeddersLoaded createEmbedding i f =
     (if aborted (BeforeItem i) then Inr None
      else if \<not> embeddersLoaded then Inr None
      else case createEmbedding f of
        Inl e \<Rightarrow> Inl e
      | Inr embedding \<Rightarrow> (if aborted (AfterItem i) then Inr None else Inr (Some (f, embedding))))"

text \<open>\<^verbatim>\<open>compact\<close> drops the undefined results; \<^verbatim>\<open>new Map(pairs)\<close> sets the pairs in turn.\<close>

definition compactList :: "'a option list \<Rightarrow> 'a list" where
  "compactList xs = List.map_filter (\<lambda>x. x) xs"

definition newMap :: "('k \<times> 'v) list \<Rightarrow> ('k \<rightharpoonup> 'v)" where
  "newMap pairs = foldl (\<lambda>m (k, v). m(k \<mapsto> v)) Map.empty pairs"

text \<open>
  \<^verbatim>\<open>pMap\<close> is a library function: its promise is fulfilled with the results in input
  order when every callback's promise is fulfilled, and rejected when one is rejected
  (\<^verbatim>\<open>stopOnError\<close> is true unless set otherwise). That is \<open>mapResult\<close>. A rejection makes
  the async function throw at the \<^verbatim>\<open>await\<close>, before it can publish. The result is the
  published map when the async function has ended.
\<close>

definition embeddingEffect ::
  "(checkpoint \<Rightarrow> bool) \<Rightarrow> bool \<Rightarrow> ('f \<Rightarrow> error + EmbeddingResult) \<Rightarrow> 'f list \<Rightarrow>
   ('f \<rightharpoonup> EmbeddingResult) \<Rightarrow> ('f \<rightharpoonup> EmbeddingResult)" where
  "embeddingEffect aborted embeddersLoaded createEmbedding images imagesWithEmbeddings =
     (if aborted AtStart then imagesWithEmbeddings
      else case mapResult (\<lambda>(i, f). embedItem aborted embeddersLoaded createEmbedding i f)
                  (enumerate 0 images) of
        Inl e \<Rightarrow> imagesWithEmbeddings
      | Inr results \<Rightarrow>
          (if aborted BeforePublish then imagesWithEmbeddings else newMap (compactList results)))"

text \<open>
  The hook over time. Every run of the effect has its own abort controller; when the
  images (or the embedders) change, React runs the cleanup of the previous run, which
  aborts its controller, and starts a new run. A run settles when its async function
  ends; runs settle in any order. What a settling run has read from its abort flag is
  given by the event, limited by the flag's value at the end: the flag is never reset, so
  a run whose controller is still not aborted has read false everywhere, and the first
  read comes before the function can be superseded.
\<close>

record 'f Run =
  runImages :: "'f list"
  runEmbedders :: bool
  controllerAborted :: bool

record 'f Hook =
  published :: "'f \<rightharpoonup> EmbeddingResult"
  effects :: "'f Run list"

datatype 'f event =
  Rerender "'f list" bool
| Settle nat "checkpoint \<Rightarrow> bool" "'f \<Rightarrow> error + EmbeddingResult"

fun abortLast :: "'f Run list \<Rightarrow> 'f Run list" where
  "abortLast [] = []"
| "abortLast [r] = [r\<lparr>controllerAborted := True\<rparr>]"
| "abortLast (r # rs) = r # abortLast rs"

fun readFlag :: "bool \<Rightarrow> (checkpoint \<Rightarrow> bool) \<Rightarrow> checkpoint \<Rightarrow> bool" where
  "readFlag atEnd seen AtStart = False"
| "readFlag atEnd seen BeforePublish = atEnd"
| "readFlag atEnd seen c = (seen c \<and> atEnd)"

fun step :: "'f Hook \<Rightarrow> 'f event \<Rightarrow> 'f Hook" where
  "step h (Rerender images embeddersLoaded) =
     h\<lparr>effects := abortLast (effects h) @
          [\<lparr>runImages = images, runEmbedders = embeddersLoaded, controllerAborted = False\<rparr>]\<rparr>"
| "step h (Settle k seen createEmbedding) =
     (if k < length (effects h)
      then h\<lparr>published :=
             embeddingEffect (readFlag (controllerAborted (effects h ! k)) seen)
               (runEmbedders (effects h ! k)) createEmbedding (runImages (effects h ! k))
               (published h)\<rparr>
      else h)"

definition initialHook :: "'f Hook" where
  "initialHook = \<lparr>published = Map.empty, effects = []\<rparr>"

definition execute :: "'f event list \<Rightarrow> 'f Hook" where
  "execute events = foldl step initialHook events"

text \<open>Fixed inputs for running the effect on concrete images.\<close>

definition neverAborted :: "checkpoint \<Rightarrow> bool" where
  "neverAborted c = False"


definition embedsAll :: "nat \<Rightarrow> error + EmbeddingResult" where
  "embedsAll f = Inr \<lparr>floatEmbedding = Some [real f]\<rparr>"



text \<open>
  Fixed random sources for running the worker on concrete inputs: \<^verbatim>\<open>Math.random()\<close>
  always returning 0, and a random sort that leaves the feature indices in place.
\<close>

definition firstDraw :: "nat \<Rightarrow> nat \<Rightarrow> real" where
  "firstDraw i j = 0"

definition keepOrder :: "nat \<Rightarrow> bool list \<Rightarrow> nat list \<Rightarrow> nat list" where
  "keepOrder i path xs = xs"

section \<open>Properties of tree induction\<close>







section \<open>Properties of the final order\<close>

text \<open>
  On rankings whose final score is not \<^verbatim>\<open>NaN\<close> the comparer is the lexicographic order
  of this key; \<open>False < True\<close>, and an undefined score is above every number.
\<close>

definition sortKey :: "('f \<times> bool) list \<Rightarrow> 'f Ranking \<Rightarrow> bool \<times> bool \<times> bool \<times> real" where
  "sortKey imagePreference i =
     (map_of imagePreference (file i) = Some True,
      \<not> (map_of imagePreference (file i) = Some False),
      scoreFinal i = None,
      (case scoreFinal i of Some (Num x) \<Rightarrow> x | _ \<Rightarrow> 0))"

lemma compareAscending_Bool:
  "compareAscending (Bool a) (Bool b) = (if a = b then 0 else if a then 1 else - 1)"
  by (simp add: compareAscending_def strictEquals_def jsLess_def)

lemma compareAscending_score:
  assumes "s \<noteq> Some NaN" and "t \<noteq> Some NaN"
  shows "compareAscending (scoreCrit s) (scoreCrit t) =
     (case (s, t) of
        (None, None) \<Rightarrow> 0
      | (None, Some _) \<Rightarrow> 1
      | (Some _, None) \<Rightarrow> - 1
      | (Some (Num x), Some (Num y)) \<Rightarrow> (if x < y then - 1 else if y < x then 1 else 0)
      | _ \<Rightarrow> 0)"
proof (cases s)
  case None
  then show ?thesis
    using assms by (cases t) (auto simp: compareAscending_def strictEquals_def jsLess_def scoreCrit_def)
next
  case (Some m)
  with assms obtain x where x: "s = Some (Num x)"
    by (cases m) auto
  show ?thesis
  proof (cases t)
    case None
    with x show ?thesis
      by (simp add: compareAscending_def strictEquals_def jsLess_def scoreCrit_def)
  next
    case (Some n)
    with assms obtain y where "t = Some (Num y)"
      by (cases n) auto
    with x show ?thesis
      by (simp add: compareAscending_def strictEquals_def jsLess_def scoreCrit_def)
  qed
qed

lemma compareMultiple_sortKey:
  assumes "scoreFinal a \<noteq> Some NaN" and "scoreFinal b \<noteq> Some NaN"
  shows "compareMultiple (map (\<lambda>iteratee. iteratee a) (iteratees imagePreference))
           (map (\<lambda>iteratee. iteratee b) (iteratees imagePreference)) \<le> 0
         \<longleftrightarrow> sortKey imagePreference a \<le> sortKey imagePreference b"
proof -
  obtain sa where sa: "scoreFinal a = sa" by simp
  obtain sb where sb: "scoreFinal b = sb" by simp
  from assms sa sb have n: "sa \<noteq> Some NaN" "sb \<noteq> Some NaN" by simp_all
  have "(compareAscending (scoreCrit sa) (scoreCrit sb) \<le> 0) =
        ((sa = None, case sa of Some (Num x) \<Rightarrow> x | _ \<Rightarrow> 0)
           \<le> (sb = None, case sb of Some (Num x) \<Rightarrow> x | _ \<Rightarrow> 0))"
    unfolding compareAscending_score [OF n]
    using n by (auto split: option.splits number.splits)
  then show ?thesis
    by (auto simp: iteratees_def sortKey_def Let_def compareAscending_Bool sa sb)
qed

lemma mapResult_rankImage_files:
  assumes "mapResult (rankImage imagePreference imagesWithEmbeddings imageForestPredictions
             sortingMethod) images = Inr rs"
  shows "map file rs = images"
  using assms
proof (induction images arbitrary: rs)
  case Nil
  then show ?case by simp
next
  case (Cons f images)
  then show ?case
    by (auto simp: rankImage_def Let_def split: sum.splits)
qed

lemma imagesSorted_finalOrder:
  assumes "imagesSorted images imagePreference imagesWithEmbeddings imageForestPredictions
             sortingMethod = Inr ordered"
  shows "\<exists>rs. map file rs = images \<and> ordered = finalOrder imagePreference rs"
  using assms mapResult_rankImage_files
  by (fastforce simp: imagesSorted_def split: sum.splits)

lemma insertSorted_mset: "mset (insertSorted criteria x ys) = add_mset x (mset ys)"
  by (induction ys) simp_all

lemma sortBy_mset: "mset (sortBy its xs) = mset xs"
  by (induction xs) (simp_all add: sortBy_def insertSorted_mset)

lemma finalOrder_mset: "mset (finalOrder imagePreference rs) = mset rs"
  by (simp add: finalOrder_def sortBy_mset)

lemma insertSorted_insort_key:
  assumes "scoreFinal x \<noteq> Some NaN" and "\<forall>y\<in>set ys. scoreFinal y \<noteq> Some NaN"
  shows "insertSorted (\<lambda>x. map (\<lambda>iteratee. iteratee x) (iteratees imagePreference)) x ys
         = insort_key (sortKey imagePreference) x ys"
  using assms(2)
proof (induction ys)
  case Nil
  show ?case by simp
next
  case (Cons y ys)
  from Cons.prems have y: "scoreFinal y \<noteq> Some NaN" by simp
  from Cons show ?case
    by (simp add: compareMultiple_sortKey [OF assms(1) y])
qed

lemma sortBy_sort_key:
  assumes "\<forall>x\<in>set xs. scoreFinal x \<noteq> Some NaN"
  shows "sortBy (iteratees imagePreference) xs = sort_key (sortKey imagePreference) xs"
  using assms
proof (induction xs)
  case Nil
  show ?case by (simp add: sortBy_def)
next
  case (Cons x xs)
  then have ih: "sortBy (iteratees imagePreference) xs = sort_key (sortKey imagePreference) xs"
    by simp
  have "sortBy (iteratees imagePreference) (x # xs)
        = insertSorted (\<lambda>x. map (\<lambda>iteratee. iteratee x) (iteratees imagePreference)) x
            (sortBy (iteratees imagePreference) xs)"
    by (simp add: sortBy_def)
  also have "\<dots> = insort_key (sortKey imagePreference) x (sort_key (sortKey imagePreference) xs)"
    unfolding ih using Cons.prems by (intro insertSorted_insort_key) simp_all
  finally show ?case by simp
qed

lemma finalOrder_sort_key:
  assumes "\<forall>x\<in>set rs. scoreFinal x \<noteq> Some NaN"
  shows "finalOrder imagePreference rs = rev (sort_key (sortKey imagePreference) (rev rs))"
  using assms by (simp add: finalOrder_def sortBy_sort_key)

lemma finalOrder_descending:
  assumes "\<forall>x\<in>set rs. scoreFinal x \<noteq> Some NaN"
  shows "sorted_wrt (\<lambda>a b. sortKey imagePreference b \<le> sortKey imagePreference a)
           (finalOrder imagePreference rs)"
proof -
  have "sorted (map (sortKey imagePreference) (sort_key (sortKey imagePreference) (rev rs)))"
    by (rule sorted_sort_key)
  then have "sorted_wrt (\<lambda>a b. sortKey imagePreference a \<le> sortKey imagePreference b)
      (sort_key (sortKey imagePreference) (rev rs))"
    by (simp add: sorted_map)
  then show ?thesis
    unfolding finalOrder_sort_key [OF assms] by (simp add: sorted_wrt_rev)
qed


lemma sortKey_label:
  assumes "sortKey imagePreference b \<le> sortKey imagePreference a"
  shows "labelRank (labelStatus imagePreference (file b))
         \<le> labelRank (labelStatus imagePreference (file a))"
  using assms
  by (cases "map_of imagePreference (file a)"; cases "map_of imagePreference (file b)")
     (auto simp: sortKey_def labelStatus_def)

lemma sortKey_same_label:
  assumes "sortKey imagePreference b \<le> sortKey imagePreference a"
    and "labelStatus imagePreference (file a) = labelStatus imagePreference (file b)"
  shows "(scoreFinal b = None, case scoreFinal b of Some (Num x) \<Rightarrow> x | _ \<Rightarrow> 0)
         \<le> (scoreFinal a = None, case scoreFinal a of Some (Num x) \<Rightarrow> x | _ \<Rightarrow> 0)"
  using assms
  by (cases "map_of imagePreference (file a)"; cases "map_of imagePreference (file b)")
     (auto simp: sortKey_def labelStatus_def split: if_splits)


section \<open>Properties of the similarity score\<close>




text \<open>The denominator is 0 only when the numerator is 0 too: the quotient is \<^verbatim>\<open>0 / 0\<close>.\<close>

lemma dot_self: "dot a a = (\<Sum>x\<leftarrow>a. x * x)"
  by (induction a) (simp_all add: dot_def)

lemma dot_self_zero:
  assumes "dot a a = 0"
  shows "\<forall>x\<in>set a. x = 0"
proof -
  have "(\<Sum>x\<leftarrow>a. x * x) = 0 \<longleftrightarrow> (\<forall>y\<in>set (map (\<lambda>x. x * x) a). y = 0)"
    by (rule sum_list_nonneg_eq_0_iff) auto
  with assms show ?thesis
    by (simp add: dot_self)
qed

lemma dot_zero_left: "\<forall>x\<in>set a. x = 0 \<Longrightarrow> dot a b = 0"
proof (induction a arbitrary: b)
  case Nil
  show ?case by (simp add: dot_def)
next
  case (Cons x a)
  from Cons.IH [of "tl b"] Cons.prems show ?case
    by (cases b) (simp_all add: dot_def)
qed

lemma dot_zero_right: "\<forall>x\<in>set b. x = 0 \<Longrightarrow> dot a b = 0"
proof (induction b arbitrary: a)
  case Nil
  show ?case by (simp add: dot_def)
next
  case (Cons x b)
  from Cons.IH [of "tl a"] Cons.prems show ?case
    by (cases a) (simp_all add: dot_def)
qed

lemma cosine_zero_denominator:
  assumes "sqrt (dot a a) * sqrt (dot b b) = 0"
  shows "dot a b = 0"
proof -
  from assms have "dot a a = 0 \<or> dot b b = 0"
    by simp
  then show ?thesis
    using dot_self_zero [of a] dot_self_zero [of b] dot_zero_left [of a b] dot_zero_right [of b a]
    by blast
qed








section \<open>Properties of the embedding effect\<close>









lemma embeddingEffect_aborted:
  assumes "aborted BeforePublish"
  shows "embeddingEffect aborted embeddersLoaded createEmbedding images m = m"
  using assms by (simp add: embeddingEffect_def split: sum.splits)

lemma mapResult_embedItem_files:
  assumes "mapResult (\<lambda>(i, f). embedItem aborted embeddersLoaded createEmbedding i f) ps = Inr results"
  shows "\<forall>q\<in>set (compactList results). fst q \<in> snd ` set ps"
  using assms
proof (induction ps arbitrary: results)
  case Nil
  then show ?case by (simp add: compactList_def)
next
  case (Cons p ps)
  obtain i f where p: "p = (i, f)" by (cases p)
  from Cons.prems p obtain r rs where r: "embedItem aborted embeddersLoaded createEmbedding i f = Inr r"
    and rs: "mapResult (\<lambda>(i, f). embedItem aborted embeddersLoaded createEmbedding i f) ps = Inr rs"
    and results: "results = r # rs"
    by (auto split: sum.splits)
  from r have "r = None \<or> (\<exists>e. r = Some (f, e))"
    by (auto simp: embedItem_def split: if_splits sum.splits)
  with Cons.IH [OF rs] show ?case
    by (auto simp: results p compactList_def)
qed

lemma newMap_dom: "dom (newMap pairs) = fst ` set pairs"
proof -
  have "dom (foldl (\<lambda>m (k, v). m(k \<mapsto> v)) m pairs) = dom m \<union> fst ` set pairs" for m :: "'a \<rightharpoonup> 'b"
    by (induction pairs arbitrary: m) auto
  then show ?thesis
    by (simp add: newMap_def)
qed

lemma embeddingEffect_dom:
  "embeddingEffect aborted embeddersLoaded createEmbedding images m = m \<or>
   dom (embeddingEffect aborted embeddersLoaded createEmbedding images m) \<subseteq> set images"
proof (cases "mapResult (\<lambda>(i, f). embedItem aborted embeddersLoaded createEmbedding i f)
    (enumerate 0 images)")
  case (Inl e)
  then show ?thesis by (simp add: embeddingEffect_def)
next
  case (Inr results)
  from mapResult_embedItem_files [OF this]
  have "\<forall>q\<in>set (compactList results). fst q \<in> set (map snd (enumerate 0 images))"
    by (simp only: set_map)
  then have "fst ` set (compactList results) \<subseteq> set images"
    by (simp only: map_snd_enumerate) blast
  with Inr show ?thesis
    by (simp add: embeddingEffect_def newMap_dom)
qed

text \<open>In every reachable state all runs but the last one are aborted.\<close>

definition onlyLastRuns :: "'f Run list \<Rightarrow> bool" where
  "onlyLastRuns rs = (\<forall>k. k + 1 < length rs \<longrightarrow> controllerAborted (rs ! k))"

lemma abortLast_all: "onlyLastRuns rs \<Longrightarrow> \<forall>r\<in>set (abortLast rs). controllerAborted r"
proof (induction rs rule: abortLast.induct)
  case 1
  show ?case by simp
next
  case (2 r)
  show ?case by simp
next
  case (3 r v va)
  from "3.prems" have "controllerAborted r"
    by (auto simp: onlyLastRuns_def)
  moreover from "3.prems" have "onlyLastRuns (v # va)"
    unfolding onlyLastRuns_def by (metis Suc_eq_plus1 Suc_less_eq length_Cons nth_Cons_Suc)
  ultimately show ?case
    using "3.IH" by simp
qed

lemma step_onlyLastRuns: "onlyLastRuns (effects h) \<Longrightarrow> onlyLastRuns (effects (step h e))"
proof (cases e)
  case (Rerender images loaded)
  assume "onlyLastRuns (effects h)"
  from abortLast_all [OF this] show ?thesis
    by (auto simp: Rerender onlyLastRuns_def nth_append)
next
  case (Settle k seen createEmbedding)
  assume "onlyLastRuns (effects h)"
  then show ?thesis
    by (simp add: Settle)
qed

lemma execute_onlyLastRuns: "onlyLastRuns (effects (execute events))"
proof -
  have "onlyLastRuns (effects h) \<Longrightarrow> onlyLastRuns (effects (foldl step h events))" for h :: "'a Hook"
    by (induction events arbitrary: h) (simp_all add: step_onlyLastRuns)
  then show ?thesis
    by (simp add: execute_def initialHook_def onlyLastRuns_def)
qed

lemma step_Settle_effects: "effects (step h (Settle k seen createEmbedding)) = effects h"
  by simp

lemma restart_scenario:
  assumes "\<forall>e\<in>set settles. \<exists>k seen createEmbedding. e = Settle k seen createEmbedding"
  shows "effects (execute (Rerender imagesA loadedA # Rerender imagesB loadedB # settles))
           = [\<lparr>runImages = imagesA, runEmbedders = loadedA, controllerAborted = True\<rparr>,
              \<lparr>runImages = imagesB, runEmbedders = loadedB, controllerAborted = False\<rparr>] \<and>
         dom (published (execute (Rerender imagesA loadedA # Rerender imagesB loadedB # settles)))
           \<subseteq> set imagesB"
  using assms
proof (induction settles rule: rev_induct)
  case Nil
  show ?case
    by (simp add: execute_def initialHook_def)
next
  case (snoc e settles)
  let ?h = "execute (Rerender imagesA loadedA # Rerender imagesB loadedB # settles)"
  from snoc.prems obtain k seen createEmbedding where e: "e = Settle k seen createEmbedding"
    by auto
  from snoc have runs: "effects ?h
      = [\<lparr>runImages = imagesA, runEmbedders = loadedA, controllerAborted = True\<rparr>,
         \<lparr>runImages = imagesB, runEmbedders = loadedB, controllerAborted = False\<rparr>]"
    and dom: "dom (published ?h) \<subseteq> set imagesB"
    by simp_all
  have ex: "execute (Rerender imagesA loadedA # Rerender imagesB loadedB # settles @ [e])
            = step ?h e"
    by (simp add: execute_def)
  have "dom (published (step ?h e)) \<subseteq> set imagesB"
  proof (cases "k = 1")
    case True
    with embeddingEffect_dom [of "readFlag False seen" loadedB createEmbedding imagesB "published ?h"]
      dom show ?thesis
      by (auto simp: e runs)
  next
    case False
    then have "k = 0 \<or> \<not> k < 2"
      by auto
    then have "published (step ?h e) = published ?h"
      using embeddingEffect_aborted [of "readFlag True seen" loadedA createEmbedding imagesA
          "published ?h"]
      by (auto simp: e runs)
    with dom show ?thesis
      by simp
  qed
  with runs show ?case
    unfolding ex by (simp add: e)
qed

text \<open>
  C8. The Gini impurity of a label list of size \<open>n\<close> is \<open>1 - \<Sum>\<^sub>c (count c / n)\<^sup>2\<close>, the sum
  ranging over the classes that occur; it is 0 when every label is the same class and
  1/2 when two classes share the list evenly.
\<close>

theorem giniImpurity_spec:
  "labels \<noteq> [] \<longrightarrow>
     giniImpurity labels =
       1 - (\<Sum>c\<in>set labels. (real (count_list labels c) / real (length labels))\<^sup>2)
     \<and> ((\<forall>l\<in>set labels. l = c) \<longrightarrow> giniImpurity labels = 0)
     \<and> (a \<noteq> b \<and> set labels \<subseteq> {a, b} \<and> count_list labels a = count_list labels b
          \<longrightarrow> giniImpurity labels = 1 / 2)"
  using giniImpurity_sum [of labels] giniImpurity_single [of labels c]
    giniImpurity_balanced [of a b labels]
  by blast

theorem giniImpurity_spec_witness:
  "giniImpurity [1, 1, 1] = 0 \<and> giniImpurity [0, 1, 1, 0] = 1 / 2"
  using giniImpurity_spec [of "[1, 1, 1]" 1 0 1] giniImpurity_spec [of "[0, 1, 1, 0]" 7 0 1]
  by simp









text \<open>
  C3 as stated fails on the worker: \<open>train\<close> has no guard. Called with an
  empty training set after a forest was trained on one liked image, it replaces that
  forest by 100 trees whose only leaf has the empty distribution, and the probability the
  worker answers for the liked class drops from 1 to 0.
\<close>

theorem object_train_empty_counterexample:
  "trainedForest (snd (object_train firstDraw keepOrder 2 [] []
       (snd (object_train firstDraw keepOrder 1 [1] [[1]] \<lparr>trainedForest = None\<rparr>))))
     \<noteq> trainedForest (snd (object_train firstDraw keepOrder 1 [1] [[1]] \<lparr>trainedForest = None\<rparr>)) \<and>
   object_predictProba [1] 1
       (snd (object_train firstDraw keepOrder 1 [1] [[1]] \<lparr>trainedForest = None\<rparr>))
     = Inr (Num 1) \<and>
   object_predictProba [1] 1
       (snd (object_train firstDraw keepOrder 2 [] []
          (snd (object_train firstDraw keepOrder 1 [1] [[1]] \<lparr>trainedForest = None\<rparr>))))
     = Inr (Num 0)"
  by code_simp

text \<open>
  C3, amended. The page never requests training for an empty or partly embedded label set:
  when there are no images, the forest strategy is not selected, no image is labeled, or
  some labeled image has no known embedding, the request returns without calling the
  worker, so no forest is built, the worker keeps the forest it had, and it answers every
  prediction as before.
\<close>

theorem forestWorkerResult_skips:
  assumes "images = [] \<or> sortingMethod \<noteq> Forest \<or> imagePreference = [] \<or>
           (\<exists>(file, liked)\<in>set imagePreference. floatEmbeddingOf imagesWithEmbeddings file = None)"
  shows "forestWorkerResult random shuffle now images imagePreference imagesWithEmbeddings
           sortingMethod w = (Inr None, w) \<and>
         object_predictProba fs c
           (snd (forestWorkerResult random shuffle now images imagePreference imagesWithEmbeddings
              sortingMethod w)) = object_predictProba fs c w"
proof -
  have "forestWorkerResult random shuffle now images imagePreference imagesWithEmbeddings
           sortingMethod w = (Inr None, w)"
    using assms by (auto simp: forestWorkerResult_def Let_def)
  then show ?thesis
    by simp
qed

theorem forestWorkerResult_skips_witness:
  "floatEmbeddingOf (Map.empty :: nat \<rightharpoonup> EmbeddingResult) 7 = None \<and>
   forestWorkerResult firstDraw keepOrder 3 [7 :: nat] [(7, True)] Map.empty Forest
       \<lparr>trainedForest = Some [Leaf [(1, 1)]]\<rparr>
     = (Inr None, \<lparr>trainedForest = Some [Leaf [(1, 1)]]\<rparr>) \<and>
   object_predictProba [1] 1
       (snd (forestWorkerResult firstDraw keepOrder 3 [7 :: nat] [(7, True)] Map.empty Forest
          \<lparr>trainedForest = Some [Leaf [(1, 1)]]\<rparr>))
     = object_predictProba [1] 1 \<lparr>trainedForest = Some [Leaf [(1, 1)]]\<rparr>"
proof -
  have h: "floatEmbeddingOf (Map.empty :: nat \<rightharpoonup> EmbeddingResult) 7 = None"
    by (simp add: floatEmbeddingOf_def)
  then have "[7 :: nat] = [] \<or> Forest \<noteq> Forest \<or> [(7 :: nat, True)] = [] \<or>
      (\<exists>(file, liked)\<in>set [(7 :: nat, True)].
          floatEmbeddingOf (Map.empty :: nat \<rightharpoonup> EmbeddingResult) file = None)"
    by simp
  from forestWorkerResult_skips [OF this, of firstDraw keepOrder 3
      "\<lparr>trainedForest = Some [Leaf [(1, 1)]]\<rparr>" "[1]" 1] h
  show ?thesis
    by simp
qed


text \<open>
  C4. The final order puts every liked image before every unlabeled one and every
  unlabeled one before every disliked one and, among images of one label status, an image
  with the greater score of the active strategy first. It is a rearrangement of the
  ranked images, and the score it uses is the forest's prediction under the forest
  strategy and the similarity score otherwise. (Scores that are \<^verbatim>\<open>NaN\<close> are excluded.)
\<close>

theorem finalOrder_by_label_then_score:
  assumes "\<forall>r\<in>set imagesWithRankings. scoreFinal r \<noteq> Some NaN"
  shows "mset (finalOrder imagePreference imagesWithRankings) = mset imagesWithRankings \<and>
         sorted_wrt
           (\<lambda>a b. labelRank (labelStatus imagePreference (file b))
                     \<le> labelRank (labelStatus imagePreference (file a)) \<and>
                  (labelStatus imagePreference (file a) = labelStatus imagePreference (file b) \<longrightarrow>
                     (\<forall>x y. scoreFinal a = Some (Num x) \<and> scoreFinal b = Some (Num y) \<longrightarrow> y \<le> x)))
           (finalOrder imagePreference imagesWithRankings) \<and>
         (\<forall>f r. rankImage imagePreference imagesWithEmbeddings imageForestPredictions
                   sortingMethod f = Inr r \<longrightarrow>
                 scoreFinal r = (if sortingMethod = Forest then scoreRf r else score r))"
proof (intro conjI)
  show "mset (finalOrder imagePreference imagesWithRankings) = mset imagesWithRankings"
    by (rule finalOrder_mset)
next
  show "sorted_wrt
           (\<lambda>a b. labelRank (labelStatus imagePreference (file b))
                     \<le> labelRank (labelStatus imagePreference (file a)) \<and>
                  (labelStatus imagePreference (file a) = labelStatus imagePreference (file b) \<longrightarrow>
                     (\<forall>x y. scoreFinal a = Some (Num x) \<and> scoreFinal b = Some (Num y) \<longrightarrow> y \<le> x)))
           (finalOrder imagePreference imagesWithRankings)"
  proof (rule sorted_wrt_mono_rel [OF _ finalOrder_descending [OF assms]])
    fix a b :: "'a Ranking"
    assume le: "sortKey imagePreference b \<le> sortKey imagePreference a"
    have "labelStatus imagePreference (file a) = labelStatus imagePreference (file b) \<Longrightarrow>
          scoreFinal a = Some (Num x) \<Longrightarrow> scoreFinal b = Some (Num y) \<Longrightarrow> y \<le> x" for x y
      using sortKey_same_label [OF le] by simp
    with sortKey_label [OF le]
    show "labelRank (labelStatus imagePreference (file b))
            \<le> labelRank (labelStatus imagePreference (file a)) \<and>
          (labelStatus imagePreference (file a) = labelStatus imagePreference (file b) \<longrightarrow>
             (\<forall>x y. scoreFinal a = Some (Num x) \<and> scoreFinal b = Some (Num y) \<longrightarrow> y \<le> x))"
      by blast
  qed
next
  show "\<forall>f r. rankImage imagePreference imagesWithEmbeddings imageForestPredictions
                   sortingMethod f = Inr r \<longrightarrow>
                 scoreFinal r = (if sortingMethod = Forest then scoreRf r else score r)"
    by (auto simp: rankImage_def Let_def split: sum.splits)
qed

theorem finalOrder_by_label_then_score_witness:
  "map file (finalOrder [(1, True), (2, False)]
     [\<lparr>file = 2 :: nat, score = None, scoreRf = None, scoreFinal = Some (Num 5)\<rparr>,
      \<lparr>file = 3, score = None, scoreRf = None, scoreFinal = Some (Num 1)\<rparr>,
      \<lparr>file = 1, score = None, scoreRf = None, scoreFinal = Some (Num 0)\<rparr>,
      \<lparr>file = 4, score = None, scoreRf = None, scoreFinal = Some (Num 2)\<rparr>]) = [1, 4, 3, 2] \<and>
   sorted_wrt
     (\<lambda>a b. labelRank (labelStatus [(1, True), (2, False)] (file b))
               \<le> labelRank (labelStatus [(1, True), (2, False)] (file a)) \<and>
            (labelStatus [(1, True), (2, False)] (file a) = labelStatus [(1, True), (2, False)] (file b) \<longrightarrow>
               (\<forall>x y. scoreFinal a = Some (Num x) \<and> scoreFinal b = Some (Num y) \<longrightarrow> y \<le> x)))
     (finalOrder [(1, True), (2, False)]
     [\<lparr>file = 2 :: nat, score = None, scoreRf = None, scoreFinal = Some (Num 5)\<rparr>,
      \<lparr>file = 3, score = None, scoreRf = None, scoreFinal = Some (Num 1)\<rparr>,
      \<lparr>file = 1, score = None, scoreRf = None, scoreFinal = Some (Num 0)\<rparr>,
      \<lparr>file = 4, score = None, scoreRf = None, scoreFinal = Some (Num 2)\<rparr>])"
proof -
  let ?rs = "[\<lparr>file = 2 :: nat, score = None, scoreRf = None, scoreFinal = Some (Num 5)\<rparr>,
      \<lparr>file = 3, score = None, scoreRf = None, scoreFinal = Some (Num 1)\<rparr>,
      \<lparr>file = 1, score = None, scoreRf = None, scoreFinal = Some (Num 0)\<rparr>,
      \<lparr>file = 4, score = None, scoreRf = None, scoreFinal = Some (Num 2)\<rparr>]"
  have h: "\<forall>r\<in>set ?rs. scoreFinal r \<noteq> Some NaN"
    by simp
  have e: "map file (finalOrder [(1, True), (2, False)] ?rs) = [1, 4, 3, 2]"
    by code_simp
  from finalOrder_by_label_then_score [OF h, of "[(1, True), (2, False)]"] e show ?thesis
    by blast
qed











text \<open>
  C9. After any sequence of re-renders and settled runs, a run that has been superseded
  publishes nothing when it settles, whatever its provider returned. Whenever the
  published map changes, the change is made by the latest run, and the new map contains
  only images of that run. In particular, when the hook is started for one image set and
  restarted for another before any run has settled, the published map afterwards never
  holds an entry outside the second set.
\<close>

theorem superseded_runs_never_publish:
  "(k + 1 < length (effects (execute events)) \<longrightarrow>
      published (step (execute events) (Settle k seen createEmbedding))
        = published (execute events)) \<and>
   (published (step (execute events) e) \<noteq> published (execute events) \<longrightarrow>
      effects (execute events) \<noteq> [] \<and>
      (\<exists>seen' createEmbedding'.
          e = Settle (length (effects (execute events)) - 1) seen' createEmbedding') \<and>
      dom (published (step (execute events) e))
        \<subseteq> set (runImages (last (effects (execute events))))) \<and>
   ((\<forall>e\<in>set settles. \<exists>k seen createEmbedding. e = Settle k seen createEmbedding) \<longrightarrow>
      dom (published (execute (Rerender imagesA loadedA # Rerender imagesB loadedB # settles)))
        \<subseteq> set imagesB)"
proof -
  let ?h = "execute events"
  have inv: "onlyLastRuns (effects ?h)"
    by (rule execute_onlyLastRuns)
  have superseded: "published (step ?h (Settle j s c)) = published ?h"
    if "j + 1 < length (effects ?h)" for j s c
  proof -
    from that inv have "controllerAborted (effects ?h ! j)"
      by (simp add: onlyLastRuns_def)
    then have "readFlag (controllerAborted (effects ?h ! j)) s BeforePublish"
      by simp
    from embeddingEffect_aborted [of "readFlag (controllerAborted (effects ?h ! j)) s", OF this] that
    show ?thesis
      by simp
  qed
  have changed: "effects ?h \<noteq> [] \<and>
      (\<exists>seen' createEmbedding'. e = Settle (length (effects ?h) - 1) seen' createEmbedding') \<and>
      dom (published (step ?h e)) \<subseteq> set (runImages (last (effects ?h)))"
    if ne: "published (step ?h e) \<noteq> published ?h"
  proof (cases e)
    case (Rerender images loaded)
    with ne show ?thesis by simp
  next
    case (Settle j s c)
    from ne Settle have j: "j < length (effects ?h)"
      by (auto split: if_splits)
    from ne Settle superseded [of j s c] have "\<not> j + 1 < length (effects ?h)"
      by auto
    with j have last: "j = length (effects ?h) - 1" and nonempty: "effects ?h \<noteq> []"
      by auto
    then have run: "effects ?h ! j = last (effects ?h)"
      by (simp add: last_conv_nth)
    from ne Settle j
    have "embeddingEffect (readFlag (controllerAborted (effects ?h ! j)) s)
            (runEmbedders (effects ?h ! j)) c (runImages (effects ?h ! j)) (published ?h)
          \<noteq> published ?h"
      by auto
    with embeddingEffect_dom [of "readFlag (controllerAborted (effects ?h ! j)) s"
        "runEmbedders (effects ?h ! j)" c "runImages (effects ?h ! j)" "published ?h"]
    have "dom (published (step ?h e)) \<subseteq> set (runImages (effects ?h ! j))"
      using Settle j by simp
    with last nonempty run Settle show ?thesis
      by simp
  qed
  from superseded [of k seen createEmbedding] changed
    restart_scenario [of settles imagesA loadedA imagesB loadedB]
  show ?thesis
    by blast
qed

theorem superseded_runs_never_publish_witness:
  "published (execute [Rerender [1, 2] True, Rerender [3] True,
      Settle 0 neverAborted embedsAll]) = Map.empty \<and>
   published (execute [Rerender [1, 2] True, Rerender [3] True,
      Settle 0 neverAborted embedsAll, Settle 1 neverAborted embedsAll]) 3
     = Some \<lparr>floatEmbedding = Some [3]\<rparr> \<and>
   dom (published (execute [Rerender [1, 2] True, Rerender [3] True,
      Settle 0 neverAborted embedsAll, Settle 1 neverAborted embedsAll])) \<subseteq> {3}"
proof -
  let ?started = "[Rerender [1, 2] True, Rerender [3] True] :: nat event list"
  define hA where "hA = execute (?started @ [Settle 0 neverAborted embedsAll])"
  define hB where "hB = execute (?started @ [Settle 0 neverAborted embedsAll, Settle 1 neverAborted embedsAll])"
  have started: "effects (execute ?started)
      = [\<lparr>runImages = [1, 2], runEmbedders = True, controllerAborted = True\<rparr>,
         \<lparr>runImages = [3], runEmbedders = True, controllerAborted = False\<rparr>]"
    "published (execute ?started) = Map.empty"
    by (simp_all add: execute_def initialHook_def)
  then have len: "0 + 1 < length (effects (execute ?started))"
    by simp
  have a: "hA = step (execute ?started) (Settle 0 neverAborted embedsAll)"
    by (simp add: hA_def execute_def)
  have b: "hB = step hA (Settle 1 neverAborted embedsAll)"
    by (simp add: hA_def hB_def execute_def)
  from superseded_runs_never_publish [of 0 ?started neverAborted embedsAll] len
  have unchanged: "published hA = Map.empty"
    unfolding a started(2) by blast
  have runs: "effects hA
      = [\<lparr>runImages = [1, 2], runEmbedders = True, controllerAborted = True\<rparr>,
         \<lparr>runImages = [3], runEmbedders = True, controllerAborted = False\<rparr>]"
    unfolding a using started(1) by simp
  have c: "published hB = [3 \<mapsto> \<lparr>floatEmbedding = Some [3]\<rparr>]"
    unfolding b
    by (simp add: runs unchanged embeddingEffect_def embedItem_def embedsAll_def
        neverAborted_def newMap_def compactList_def)
  from unchanged c show ?thesis
    by (simp add: hA_def hB_def)
qed

end
